theory Spec2Isabelle
  imports Main "HOL-Library.AList" "HOL-Library.Char_ord" "HOL-Library.List_Lexorder"
    "HOL-Library.Product_Lexorder" "HOL-Library.Multiset"
begin

section \<open>Data model of the mental load task manager\<close>

text \<open>
  The embedding follows \<^verbatim>\<open>task_manager.py\<close> and \<^verbatim>\<open>coordinator.py\<close>.

  \<^item> A Python \<^verbatim>\<open>dict\<close> is an association list: it keeps insertion order, assignment to an
    existing key keeps the key's position (\<open>AList.update\<close>), \<^verbatim>\<open>pop\<close> is \<open>AList.delete\<close>.
  \<^item> A Python \<^verbatim>\<open>set\<close> of uids is a list without duplicates (\<open>List.insert\<close>); the source
    only iterates over such sets with loops whose result does not depend on the order.
  \<^item> A \<^verbatim>\<open>datetime\<close> is the instant it denotes, in microseconds since
    0001-01-01T00:00:00 UTC, so \<^verbatim>\<open>dt_util.as_utc\<close> is the identity on the model.
    A \<^verbatim>\<open>date\<close> is its day number.
  \<^item> Strings are byte strings (\<open>char list\<close>).
  \<^item> What the source gets from outside (uuid4, the planner, the calendar reader, the
    formatting of datetimes) is a parameter, collected in the record \<open>Env\<close>.
\<close>

datatype TodoItemStatus = NEEDS_ACTION | IN_PROGRESS | COMPLETED

type_synonym datetime = nat
type_synonym date = nat


text \<open>The value of \<^verbatim>\<open>CalendarEvent.start\<close> and \<^verbatim>\<open>end\<close>: a datetime or a plain date.\<close>

datatype moment = AtDatetime datetime | OnDate date

text \<open>The \<^verbatim>\<open>extra\<close> dict of a TodoItem; the source always builds it with these three keys.\<close>

record Extra =
  x_source :: "string option"
  x_parent_uid :: "string option"
  x_mental_load :: "string option"

text \<open>
  \<^verbatim>\<open>TodoItem\<close>. The library declares \<^verbatim>\<open>status\<close> optional; every item the manager
  stores is built with a status, and \<^verbatim>\<open>async_update_item\<close> writes
  \<^verbatim>\<open>item.status or NEEDS_ACTION\<close>, so the stored field is never None.
\<close>

record TodoItem =
  summary :: string
  uid :: string
  description :: "string option"
  status :: TodoItemStatus
  due :: "datetime option"
  extra :: Extra

record StoredTask =
  item :: TodoItem
  parent_key :: string
  is_parent :: bool

record PlannedTask =
  title :: string
  p_description :: "string option"
  p_due :: "datetime option"
  effort :: "string option"
  category :: "string option"
  p_notes :: "string option"

record PlannedResponse =
  tasks :: "PlannedTask list"
  mental_load :: "string option"
  summary_notes :: "string option"

record CalendarEvent =
  ev_summary :: "string option"
  ev_description :: "string option"
  ev_start :: "moment option"
  ev_end :: "moment option"
  ev_uid :: "string option"

text \<open>
  The per-key dict in \<^verbatim>\<open>_parent_meta\<close>. Both places that create it give it the keys
  source, summary, mental_load and notes; \<^verbatim>\<open>parent_uid\<close> is added later, and
  \<^verbatim>\<open>meta.get("parent_uid")\<close> is None until then.
\<close>

record Meta =
  meta_source :: "string option"
  meta_summary :: "string option"
  meta_mental_load :: "string option"
  meta_notes :: "string option"
  meta_parent_uid :: "string option"

text \<open>
  The state of \<^verbatim>\<open>MentalLoadTaskManager\<close>: its four dicts, and three counters that
  record the effects on the outside: the number of uuid4 calls, of planner calls and of
  listener notifications made so far.
\<close>

record Manager =
  stored_tasks :: "(string \<times> StoredTask) list"
  parent_children :: "(string \<times> string list) list"
  parent_meta :: "(string \<times> Meta) list"
  event_signatures :: "(string \<times> string) list"
  uuid_calls :: nat
  planner_calls :: nat
  notifications :: nat

text \<open>
  The outside world. \<open>uuid4 n\<close> is the string of the \<open>n\<close>-th generated uuid;
  \<open>plan_for_calendar_event n\<close> is the reply of the planner to its \<open>n\<close>-th call (any
  run of a planner that is not a function of its arguments is such a sequence);
  \<open>async_get_events c\<close> is None when reading calendar \<open>c\<close> raises.
\<close>

record Env =
  uuid4 :: "nat \<Rightarrow> string"
  isoformat :: "datetime \<Rightarrow> string"
  str_of_when :: "moment option \<Rightarrow> string"
  start_of_local_day :: "date \<Rightarrow> datetime"
  plan_for_calendar_event ::
    "nat \<Rightarrow> string option \<Rightarrow> string option \<Rightarrow> moment option \<Rightarrow> moment option \<Rightarrow> PlannedResponse"
  async_get_events :: "string \<Rightarrow> CalendarEvent list option"

datatype error = KeyError string | UpdateFailed string

definition empty_manager :: Manager where
  "empty_manager = \<lparr>stored_tasks = [], parent_children = [], parent_meta = [],
     event_signatures = [], uuid_calls = 0, planner_calls = 0, notifications = 0\<rparr>"

section \<open>Helpers of the source\<close>

text \<open>Python truthiness of a \<^verbatim>\<open>str | None\<close>: neither None nor empty.\<close>

definition truthy :: "string option \<Rightarrow> bool" where
  "truthy s = (case s of None \<Rightarrow> False | Some t \<Rightarrow> t \<noteq> [])"

text \<open>\<^verbatim>\<open>value or ""\<close>.\<close>

definition or_empty :: "string option \<Rightarrow> string" where
  "or_empty s = (case s of None \<Rightarrow> [] | Some t \<Rightarrow> t)"

text \<open>\<^verbatim>\<open>sep.join(parts)\<close>.\<close>

fun join :: "string \<Rightarrow> string list \<Rightarrow> string" where
  "join sep [] = []"
| "join sep [p] = p"
| "join sep (p # q # ps) = p @ sep @ join sep (q # ps)"

text \<open>\<^verbatim>\<open>s.startswith(p)\<close>.\<close>

definition startswith :: "string \<Rightarrow> string \<Rightarrow> bool" where
  "startswith p s = (take (length p) s = p)"

text \<open>\<^verbatim>\<open>d.get(k, set())\<close> on the parent-to-children dict.\<close>

definition children_of :: "(string \<times> string list) list \<Rightarrow> string \<Rightarrow> string list" where
  "children_of pc k = (case map_of pc k of None \<Rightarrow> [] | Some c \<Rightarrow> c)"

text \<open>The loop \<^verbatim>\<open>for uid in uids: self._tasks.pop(uid, None)\<close>.\<close>

definition pop_all :: "string list \<Rightarrow> (string \<times> StoredTask) list \<Rightarrow> (string \<times> StoredTask) list" where
  "pop_all uids ts = fold AList.delete uids ts"

definition notify_listeners :: "Manager \<Rightarrow> Manager" where
  "notify_listeners m = m\<lparr>notifications := Suc (notifications m)\<rparr>"

text \<open>\<^verbatim>\<open>replace(stored.item, status=s)\<close> on the item of a stored task.\<close>

definition set_status :: "TodoItemStatus \<Rightarrow> StoredTask \<Rightarrow> StoredTask" where
  "set_status s t = t\<lparr>item := (item t)\<lparr>status := s\<rparr>\<rparr>"

section \<open>Status derivation\<close>

definition derive_parent_status :: "PlannedTask list \<Rightarrow> TodoItemStatus" where
  "derive_parent_status ts = (if ts = [] then NEEDS_ACTION else IN_PROGRESS)"

text \<open>
  The list comprehension of \<^verbatim>\<open>_derive_parent_status_from_children\<close>: the items of the
  uids in the parent key's child set that are in \<^verbatim>\<open>_tasks\<close>.
\<close>

definition child_items :: "Manager \<Rightarrow> string \<Rightarrow> TodoItem list" where
  "child_items m k =
     List.map_filter (\<lambda>u. map_option item (map_of (stored_tasks m) u))
       (children_of (parent_children m) k)"

definition derive_parent_status_from_children :: "Manager \<Rightarrow> string \<Rightarrow> TodoItemStatus" where
  "derive_parent_status_from_children m puid =
     (case map_of (stored_tasks m) puid of
        None \<Rightarrow> NEEDS_ACTION
      | Some parent_task \<Rightarrow>
          (let children = child_items m (parent_key parent_task) in
           if children = [] then NEEDS_ACTION
           else if list_all (\<lambda>c. status c = COMPLETED) children then COMPLETED
           else if list_ex (\<lambda>c. status c = IN_PROGRESS) children then IN_PROGRESS
           else if list_ex (\<lambda>c. status c = COMPLETED) children then IN_PROGRESS
           else NEEDS_ACTION))"

text \<open>
  The derivation rule as the specification words it, on the list of child statuses:
  rules 1 to 5, the first that matches wins.
\<close>

definition spec_parent_status :: "TodoItemStatus list \<Rightarrow> TodoItemStatus" where
  "spec_parent_status ss =
     (if ss = [] then NEEDS_ACTION
      else if (\<forall>s \<in> set ss. s = COMPLETED) then COMPLETED
      else if IN_PROGRESS \<in> set ss then IN_PROGRESS
      else if COMPLETED \<in> set ss \<and> \<not> (\<forall>s \<in> set ss. s = COMPLETED) \<and> IN_PROGRESS \<notin> set ss
        then IN_PROGRESS
      else NEEDS_ACTION)"

section \<open>Item updates\<close>

text \<open>
  The two propagation loops of \<^verbatim>\<open>async_update_item\<close> on a parent.
  \<^verbatim>\<open>self._tasks[child_uid]\<close> raises KeyError for a uid that is not stored.
\<close>

fun complete_children ::
  "string list \<Rightarrow> (string \<times> StoredTask) list \<Rightarrow> error + (string \<times> StoredTask) list" where
  "complete_children [] ts = Inr ts"
| "complete_children (c # cs) ts =
     (case map_of ts c of
        None \<Rightarrow> Inl (KeyError c)
      | Some child \<Rightarrow> complete_children cs (AList.update c (set_status COMPLETED child) ts))"

fun reopen_children ::
  "string list \<Rightarrow> (string \<times> StoredTask) list \<Rightarrow> error + (string \<times> StoredTask) list" where
  "reopen_children [] ts = Inr ts"
| "reopen_children (c # cs) ts =
     (case map_of ts c of
        None \<Rightarrow> Inl (KeyError c)
      | Some child \<Rightarrow>
          reopen_children cs
            (if status (item child) = COMPLETED
             then AList.update c (set_status NEEDS_ACTION child) ts else ts))"

text \<open>
  \<^verbatim>\<open>async_update_item(item)\<close> reads \<^verbatim>\<open>item.uid\<close> and \<^verbatim>\<open>item.status\<close> only; they are
  the two arguments. An unknown uid is logged and nothing changes, not even a
  notification.
\<close>

definition async_update_item :: "string \<Rightarrow> TodoItemStatus option \<Rightarrow> Manager \<Rightarrow> error + Manager" where
  "async_update_item u st m =
     (case map_of (stored_tasks m) u of
        None \<Rightarrow> Inr m
      | Some stored \<Rightarrow>
          (let new_status = (case st of None \<Rightarrow> NEEDS_ACTION | Some s \<Rightarrow> s);
               ts1 = AList.update u (set_status new_status stored) (stored_tasks m);
               m1 = m\<lparr>stored_tasks := ts1\<rparr>
           in if is_parent stored then
                (if new_status = COMPLETED then
                   (case complete_children (children_of (parent_children m) (parent_key stored)) ts1 of
                      Inl e \<Rightarrow> Inl e
                    | Inr ts2 \<Rightarrow> Inr (notify_listeners (m\<lparr>stored_tasks := ts2\<rparr>)))
                 else if new_status = NEEDS_ACTION then
                   (case reopen_children (children_of (parent_children m) (parent_key stored)) ts1 of
                      Inl e \<Rightarrow> Inl e
                    | Inr ts2 \<Rightarrow> Inr (notify_listeners (m\<lparr>stored_tasks := ts2\<rparr>)))
                 else Inr (notify_listeners m1))
              else
                (case x_parent_uid (extra (item stored)) of
                   None \<Rightarrow> Inr (notify_listeners m1)
                 | Some puid \<Rightarrow>
                     (if puid = [] then Inr (notify_listeners m1)
                      else (case map_of ts1 puid of
                              None \<Rightarrow> Inr (notify_listeners m1)
                            | Some parent \<Rightarrow>
                                Inr (notify_listeners
                                  (m1\<lparr>stored_tasks :=
                                     AList.update puid
                                       (set_status (derive_parent_status_from_children m1 puid) parent)
                                       ts1\<rparr>)))))))"

section \<open>Signatures and due values\<close>

text \<open>
  \<^verbatim>\<open>_iso_or_empty\<close>: only a datetime is formatted; a plain date and None give the
  empty string. \<open>isoformat env d\<close> is \<^verbatim>\<open>dt_util.as_utc(d).isoformat()\<close>.
\<close>

definition iso_or_empty :: "Env \<Rightarrow> moment option \<Rightarrow> string" where
  "iso_or_empty env v = (case v of Some (AtDatetime d) \<Rightarrow> isoformat env d | _ \<Rightarrow> [])"

definition event_signature :: "Env \<Rightarrow> CalendarEvent \<Rightarrow> string" where
  "event_signature env event =
     join ''|'' [or_empty (ev_summary event), or_empty (ev_description event),
                 iso_or_empty env (ev_start event), iso_or_empty env (ev_end event)]"

text \<open>
  \<^verbatim>\<open>_parse_due\<close> on the values a calendar event carries (a datetime, a date or None);
  its string branch is reached from manual entries only.
\<close>

definition parse_due :: "Env \<Rightarrow> moment option \<Rightarrow> datetime option" where
  "parse_due env v =
     (case v of
        Some (AtDatetime d) \<Rightarrow> Some d
      | Some (OnDate d) \<Rightarrow> Some (start_of_local_day env d)
      | None \<Rightarrow> None)"

section \<open>Building and replacing a subtree\<close>

definition opt_part :: "string option \<Rightarrow> string list" where
  "opt_part s = (if truthy s then [or_empty s] else [])"

definition child_description :: "PlannedTask \<Rightarrow> string option" where
  "child_description planned =
     (let parts = opt_part (p_description planned)
                @ (if truthy (effort planned) then [''Mental Load: '' @ or_empty (effort planned)] else [])
                @ opt_part (p_notes planned)
      in if parts = [] then None else Some (join [CHR 0x0A] parts))"

text \<open>The TodoItem built for one planned task in the loop of \<^verbatim>\<open>_replace_parent_tasks\<close>.\<close>

definition child_item ::
  "string \<Rightarrow> string \<Rightarrow> string option \<Rightarrow> datetime option \<Rightarrow> string \<Rightarrow> PlannedTask \<Rightarrow> TodoItem" where
  "child_item parent_summary parent_uid src due_override child_uid planned =
     \<lparr>summary = parent_summary @ '': '' @ title planned,
      uid = child_uid,
      description = child_description planned,
      status = NEEDS_ACTION,
      due = (case p_due planned of Some d \<Rightarrow> Some d | None \<Rightarrow> due_override),
      extra = \<lparr>x_source = src, x_parent_uid = Some parent_uid,
               x_mental_load = effort planned\<rparr>\<rparr>"

text \<open>
  The loop \<^verbatim>\<open>for planned in plan.tasks\<close>. \<open>src\<close> is
  \<^verbatim>\<open>self._parent_meta[parent_key][ATTR_SOURCE]\<close>, which the loop does not change.
\<close>

fun add_children ::
  "Env \<Rightarrow> string \<Rightarrow> string \<Rightarrow> string \<Rightarrow> string option \<Rightarrow> datetime option \<Rightarrow>
     PlannedTask list \<Rightarrow> Manager \<Rightarrow> Manager" where
  "add_children env k parent_summary parent_uid src due_override [] m = m"
| "add_children env k parent_summary parent_uid src due_override (planned # rest) m =
     (let child_uid = uuid4 env (uuid_calls m);
          child = child_item parent_summary parent_uid src due_override child_uid planned
      in add_children env k parent_summary parent_uid src due_override rest
           (m\<lparr>uuid_calls := Suc (uuid_calls m),
              stored_tasks :=
                AList.update child_uid \<lparr>item = child, parent_key = k, is_parent = False\<rparr>
                  (stored_tasks m),
              parent_children :=
                AList.update k (List.insert child_uid (children_of (parent_children m) k))
                  (parent_children m)\<rparr>))"

definition parent_notes :: "PlannedResponse \<Rightarrow> string option" where
  "parent_notes plan =
     (if truthy (mental_load plan)
      then Some (or_empty (summary_notes plan) @ [CHR 0x0A] @ ''Mental Load Bewertung: ''
                 @ or_empty (mental_load plan))
      else summary_notes plan)"

text \<open>
  \<^verbatim>\<open>_replace_parent_tasks\<close>. The old child set is popped and its tasks are removed; the
  task of the previous parent is not touched. The assignment
  \<^verbatim>\<open>self._parent_meta[parent_key]["parent_uid"] = parent_uid\<close> raises KeyError when the
  key has no meta entry (both callers store one first).
\<close>

definition replace_parent_tasks ::
  "Env \<Rightarrow> string \<Rightarrow> PlannedResponse \<Rightarrow> datetime option \<Rightarrow> Manager \<Rightarrow> error + Manager" where
  "replace_parent_tasks env k plan due_override m =
     (let existing = children_of (parent_children m) k;
          parent_uid = uuid4 env (uuid_calls m);
          meta = map_of (parent_meta m) k;
          msum = (case meta of None \<Rightarrow> None | Some mt \<Rightarrow> meta_summary mt);
          parent_summary = (if truthy msum then or_empty msum else ''Mental Load Aufgabe'');
          parent_item =
            \<lparr>summary = parent_summary, uid = parent_uid, description = parent_notes plan,
             status = derive_parent_status (tasks plan), due = due_override,
             extra = \<lparr>x_source = (case meta of None \<Rightarrow> None | Some mt \<Rightarrow> meta_source mt),
                      x_parent_uid = None, x_mental_load = mental_load plan\<rparr>\<rparr>
      in case meta of
           None \<Rightarrow> Inl (KeyError k)
         | Some mt \<Rightarrow>
             Inr (notify_listeners
               (add_children env k parent_summary parent_uid (meta_source mt) due_override
                  (tasks plan)
                  (m\<lparr>uuid_calls := Suc (uuid_calls m),
                     stored_tasks :=
                       AList.update parent_uid
                         \<lparr>item = parent_item, parent_key = k, is_parent = True\<rparr>
                         (pop_all existing (stored_tasks m)),
                     parent_children := AList.update k [] (AList.delete k (parent_children m)),
                     parent_meta :=
                       AList.update k (mt\<lparr>meta_parent_uid := Some parent_uid\<rparr>)
                         (parent_meta m)\<rparr>))))"

definition remove_parent :: "string \<Rightarrow> Manager \<Rightarrow> Manager" where
  "remove_parent k m =
     (let children = children_of (parent_children m) k;
          ts1 = pop_all children (stored_tasks m);
          ts2 = (case map_of (parent_meta m) k of
                   None \<Rightarrow> ts1
                 | Some mt \<Rightarrow>
                     (if truthy (meta_parent_uid mt)
                      then AList.delete (or_empty (meta_parent_uid mt)) ts1 else ts1))
      in m\<lparr>stored_tasks := ts2,
           parent_children := AList.delete k (parent_children m),
           parent_meta := AList.delete k (parent_meta m)\<rparr>)"

definition remove_missing_calendar_events :: "string list \<Rightarrow> Manager \<Rightarrow> nat \<times> Manager" where
  "remove_missing_calendar_events valid m =
     (let to_remove = filter (\<lambda>key. startswith ''calendar:'' key \<and> key \<notin> set valid)
                        (map fst (parent_meta m));
          m1 = fold remove_parent to_remove m
      in (length to_remove, if to_remove \<noteq> [] then notify_listeners m1 else m1))"

section \<open>The reconciliation cycle\<close>

definition async_process_calendar_event ::
  "Env \<Rightarrow> string \<Rightarrow> string \<Rightarrow> CalendarEvent \<Rightarrow> Manager \<Rightarrow> error + (bool \<times> Manager)" where
  "async_process_calendar_event env calendar_id k event m =
     (let signature = event_signature env event in
      if map_of (event_signatures m) k = Some signature then Inr (False, m)
      else
        (let plan = plan_for_calendar_event env (planner_calls m) (ev_summary event)
                      (ev_description event) (ev_start event) (ev_end event);
             m1 = m\<lparr>planner_calls := Suc (planner_calls m),
                    event_signatures := AList.update k signature (event_signatures m),
                    parent_meta :=
                      AList.update k
                        \<lparr>meta_source = Some ''calendar'', meta_summary = ev_summary event,
                         meta_mental_load = mental_load plan, meta_notes = summary_notes plan,
                         meta_parent_uid = None\<rparr>
                        (parent_meta m)\<rparr>;
             due_dt = (case parse_due env (ev_start event) of
                         Some d \<Rightarrow> Some d
                       | None \<Rightarrow> parse_due env (ev_end event))
         in case replace_parent_tasks env k plan due_dt m1 of
              Inl e \<Rightarrow> Inl e
            | Inr m2 \<Rightarrow> Inr (True, m2)))"

text \<open>\<open>str_of_when env\<close> is the text an f-string gives for the start or end value.\<close>

definition make_parent_key :: "Env \<Rightarrow> string \<Rightarrow> CalendarEvent \<Rightarrow> string" where
  "make_parent_key env calendar_id event =
     (let u = (if truthy (ev_uid event) then or_empty (ev_uid event)
               else str_of_when env (ev_start event) @ ''_'' @ str_of_when env (ev_end event)
                    @ ''_'' @ (case ev_summary event of None \<Rightarrow> ''None'' | Some s \<Rightarrow> s))
      in ''calendar:'' @ calendar_id @ '':'' @ u)"

text \<open>
  The inner loop of \<^verbatim>\<open>_async_update_data\<close> over the events of one calendar, on the
  pair of the observed keys and the manager.
\<close>

fun process_events ::
  "Env \<Rightarrow> string \<Rightarrow> CalendarEvent list \<Rightarrow> string list \<times> Manager \<Rightarrow>
     error + (string list \<times> Manager)" where
  "process_events env calendar_id [] om = Inr om"
| "process_events env calendar_id (event # rest) (observed, m) =
     (let k = make_parent_key env calendar_id event in
      case async_process_calendar_event env calendar_id k event m of
        Inl e \<Rightarrow> Inl e
      | Inr (updated, m1) \<Rightarrow> process_events env calendar_id rest (List.insert k observed, m1))"

text \<open>
  The outer loop. An exception leaves the loop at once; what the manager has become by
  then stays, so the result is the error, if any, with the observed keys and the manager
  at that point.
\<close>

fun process_calendars ::
  "Env \<Rightarrow> string list \<Rightarrow> string list \<times> Manager \<Rightarrow> error option \<times> string list \<times> Manager" where
  "process_calendars env [] om = (None, om)"
| "process_calendars env (calendar_id # rest) (observed, m) =
     (case async_get_events env calendar_id of
        None \<Rightarrow> (Some (UpdateFailed (''Failed to read calendar '' @ calendar_id)), observed, m)
      | Some events \<Rightarrow>
          (case process_events env calendar_id events (observed, m) of
             Inl e \<Rightarrow> (Some e, observed, m)
           | Inr om1 \<Rightarrow> process_calendars env rest om1))"

definition async_update_data :: "Env \<Rightarrow> string list \<Rightarrow> Manager \<Rightarrow> error option \<times> Manager" where
  "async_update_data env calendars m =
     (if calendars = [] then (None, m)
      else (case process_calendars env calendars ([], m) of
              (Some e, observed, m1) \<Rightarrow> (Some e, m1)
            | (None, observed, m1) \<Rightarrow> (None, snd (remove_missing_calendar_events observed m1))))"

section \<open>Listing\<close>





section \<open>Auxiliary definitions\<close>

text \<open>What the second loop of \<^verbatim>\<open>async_update_item\<close> does to one child.\<close>

definition reopen :: "StoredTask \<Rightarrow> StoredTask" where
  "reopen t = (if status (item t) = COMPLETED then set_status NEEDS_ACTION t else t)"

text \<open>Reading a status out of a manager, and out of the result of an operation.\<close>

definition status_of :: "Manager \<Rightarrow> string \<Rightarrow> TodoItemStatus option" where
  "status_of m u = map_option (\<lambda>t. status (item t)) (map_of (stored_tasks m) u)"

definition result_status :: "error + Manager \<Rightarrow> string \<Rightarrow> TodoItemStatus option" where
  "result_status r u = (case r of Inl e \<Rightarrow> None | Inr m \<Rightarrow> status_of m u)"

section \<open>Example values\<close>

text \<open>
  A planner that always answers with three tasks, uuids \<open>u\<close>, \<open>uu\<close>, \<open>uuu\<close>, ... and a
  calendar \<open>home\<close> with one event.
\<close>

definition ex_planned :: "string \<Rightarrow> PlannedTask" where
  "ex_planned t = \<lparr>title = t, p_description = None, p_due = None, effort = None,
     category = None, p_notes = None\<rparr>"

definition ex_plan :: PlannedResponse where
  "ex_plan = \<lparr>tasks = [ex_planned ''a'', ex_planned ''b'', ex_planned ''c''],
     mental_load = None, summary_notes = None\<rparr>"

definition ex_event :: "string option \<Rightarrow> CalendarEvent" where
  "ex_event d = \<lparr>ev_summary = Some ''Party'', ev_description = d,
     ev_start = Some (AtDatetime 1), ev_end = None, ev_uid = Some ''e1''\<rparr>"

definition ex_env :: "(string \<Rightarrow> CalendarEvent list option) \<Rightarrow> Env" where
  "ex_env cal = \<lparr>uuid4 = (\<lambda>n. replicate (Suc n) CHR ''u''),
     isoformat = (\<lambda>d. replicate d CHR ''i''),
     str_of_when = (\<lambda>w. ''w''),
     start_of_local_day = (\<lambda>d. d * 86400000000),
     plan_for_calendar_event = (\<lambda>n s d a b. ex_plan),
     async_get_events = cal\<rparr>"

definition ex_child :: "string \<Rightarrow> string \<Rightarrow> string \<Rightarrow> TodoItemStatus \<Rightarrow> StoredTask" where
  "ex_child pu cu t s =
     \<lparr>item = \<lparr>summary = ''Party: '' @ t, uid = cu, description = None, status = s,
               due = Some 1,
               extra = \<lparr>x_source = Some ''calendar'', x_parent_uid = Some pu,
                        x_mental_load = None\<rparr>\<rparr>,
      parent_key = ''calendar:home:e1'', is_parent = False\<rparr>"

definition ex_parent :: "string \<Rightarrow> TodoItemStatus \<Rightarrow> StoredTask" where
  "ex_parent pu s =
     \<lparr>item = \<lparr>summary = ''Party'', uid = pu, description = None, status = s,
               due = Some 1,
               extra = \<lparr>x_source = Some ''calendar'', x_parent_uid = None,
                        x_mental_load = None\<rparr>\<rparr>,
      parent_key = ''calendar:home:e1'', is_parent = True\<rparr>"

definition ex_meta :: "string \<Rightarrow> Meta" where
  "ex_meta pu = \<lparr>meta_source = Some ''calendar'', meta_summary = Some ''Party'',
     meta_mental_load = None, meta_notes = None, meta_parent_uid = Some pu\<rparr>"

text \<open>
  The manager after the event was planned once: parent \<open>u\<close> with the children \<open>uu\<close>,
  \<open>uuu\<close>, \<open>uuuu\<close>, with the given statuses and notification count.
\<close>

definition ex_store ::
  "TodoItemStatus \<Rightarrow> TodoItemStatus \<Rightarrow> TodoItemStatus \<Rightarrow> TodoItemStatus \<Rightarrow> nat \<Rightarrow> Manager" where
  "ex_store sp s1 s2 s3 n =
     \<lparr>stored_tasks = [(''u'', ex_parent ''u'' sp), (''uu'', ex_child ''u'' ''uu'' ''a'' s1),
        (''uuu'', ex_child ''u'' ''uuu'' ''b'' s2), (''uuuu'', ex_child ''u'' ''uuuu'' ''c'' s3)],
      parent_children = [(''calendar:home:e1'', [''uuuu'', ''uuu'', ''uu''])],
      parent_meta = [(''calendar:home:e1'', ex_meta ''u'')],
      event_signatures = [(''calendar:home:e1'', ''Party||i|'')],
      uuid_calls = 4, planner_calls = 1, notifications = n\<rparr>"



text \<open>
  The child description as the specification words it, for a given label of the effort
  line: the values that are present and not empty among the description, the effort line
  and the notes, one per line; None when there is none.
\<close>

definition spec_child_description :: "string \<Rightarrow> PlannedTask \<Rightarrow> string option" where
  "spec_child_description label planned =
     (let present = filter (\<lambda>v. v \<noteq> [])
            [case p_description planned of None \<Rightarrow> [] | Some x \<Rightarrow> x,
             case effort planned of None \<Rightarrow> [] | Some x \<Rightarrow> if x = [] then [] else label @ x,
             case p_notes planned of None \<Rightarrow> [] | Some x \<Rightarrow> x]
      in case present of
           [] \<Rightarrow> None
         | first # others \<Rightarrow> Some (first @ concat (map (\<lambda>line. CHR 0x0A # line) others)))"

definition ex_effort_task :: PlannedTask where
  "ex_effort_task = \<lparr>title = ''a'', p_description = None, p_due = None,
     effort = Some ''high'', category = None, p_notes = None\<rparr>"

text \<open>The manager when the event has been planned and its meta entry stored.\<close>

definition ex_meta0 :: Meta where
  "ex_meta0 = \<lparr>meta_source = Some ''calendar'', meta_summary = Some ''Party'',
     meta_mental_load = None, meta_notes = None, meta_parent_uid = None\<rparr>"

definition ex_planned_store :: Manager where
  "ex_planned_store = empty_manager\<lparr>planner_calls := 1,
     event_signatures := [(''calendar:home:e1'', ''Party||i|'')],
     parent_meta := [(''calendar:home:e1'', ex_meta0)]\<rparr>"

text \<open>One round of the loop over the planned tasks.\<close>

definition child_step ::
  "Env \<Rightarrow> string \<Rightarrow> string \<Rightarrow> string \<Rightarrow> string option \<Rightarrow> datetime option \<Rightarrow>
     PlannedTask \<Rightarrow> Manager \<Rightarrow> Manager" where
  "child_step env k ps pu src dov p m =
     m\<lparr>uuid_calls := Suc (uuid_calls m),
       stored_tasks :=
         AList.update (uuid4 env (uuid_calls m))
           \<lparr>item = child_item ps pu src dov (uuid4 env (uuid_calls m)) p,
            parent_key = k, is_parent = False\<rparr>
           (stored_tasks m),
       parent_children :=
         AList.update k (List.insert (uuid4 env (uuid_calls m)) (children_of (parent_children m) k))
           (parent_children m)\<rparr>"

text \<open>The uids of the parent tasks stored for a key.\<close>

definition parents_for :: "Manager \<Rightarrow> string \<Rightarrow> string list" where
  "parents_for m k =
     map fst (filter (\<lambda>(u, t). is_parent t \<and> parent_key t = k) (stored_tasks m))"

text \<open>
  The manager after the event of \<open>ex_store\<close> changed its description and was planned
  again: the first parent \<open>u\<close> is still stored.
\<close>

definition ex_replanned :: Manager where
  "ex_replanned =
     \<lparr>stored_tasks = [(''u'', ex_parent ''u'' IN_PROGRESS),
        (''uuuuu'', ex_parent ''uuuuu'' IN_PROGRESS),
        (''uuuuuu'', ex_child ''uuuuu'' ''uuuuuu'' ''a'' NEEDS_ACTION),
        (''uuuuuuu'', ex_child ''uuuuu'' ''uuuuuuu'' ''b'' NEEDS_ACTION),
        (''uuuuuuuu'', ex_child ''uuuuu'' ''uuuuuuuu'' ''c'' NEEDS_ACTION)],
      parent_children = [(''calendar:home:e1'', [''uuuuuuuu'', ''uuuuuuu'', ''uuuuuu''])],
      parent_meta = [(''calendar:home:e1'', ex_meta ''uuuuu'')],
      event_signatures = [(''calendar:home:e1'', ''Party|cake|i|'')],
      uuid_calls = 8, planner_calls = 2, notifications = 2\<rparr>"

text \<open>Calendar \<open>home\<close> has the example event, \<open>work\<close> is empty, any other cannot be read.\<close>

definition ex_cal :: "string \<Rightarrow> CalendarEvent list option" where
  "ex_cal c = (if c = ''home'' then Some [ex_event None]
               else if c = ''work'' then Some [] else None)"

text \<open>The events a cycle processes, with their calendars: those of the calendars before
  the first that cannot be read.\<close>

section \<open>What a cycle observes\<close>


text \<open>The error and the observed keys of a cycle; they do not depend on the manager.\<close>


text \<open>Recording the signature of one observed event in a signature map.\<close>





section \<open>Facts about the helpers\<close>

lemmas model_defs = async_process_calendar_event_def event_signature_def or_empty_def
  iso_or_empty_def replace_parent_tasks_def Let_def children_of_def pop_all_def parse_due_def
  truthy_def notify_listeners_def derive_parent_status_def parent_notes_def child_item_def
  child_description_def opt_part_def empty_manager_def set_status_def

lemmas ex_defs = ex_env_def ex_event_def ex_plan_def ex_planned_def ex_store_def ex_child_def
  ex_parent_def ex_meta_def

lemma ex_store_installed:
  "async_process_calendar_event (ex_env cal) ''home'' ''calendar:home:e1'' (ex_event None)
     empty_manager =
   Inr (True, ex_store IN_PROGRESS NEEDS_ACTION NEEDS_ACTION NEEDS_ACTION 1)"
  by (simp add: model_defs ex_defs)

lemma set_status_idem: "set_status s (set_status s' t) = set_status s t"
  by (simp add: set_status_def)

lemma map_of_Some_key: "map_of ts c = Some x \<Longrightarrow> c \<in> set (map fst ts)"
proof -
  assume "map_of ts c = Some x"
  then have "(c, x) \<in> set ts" by (rule map_of_SomeD)
  then have "fst (c, x) \<in> fst ` set ts" by (rule imageI)
  then show ?thesis by simp
qed

lemma update_same_keys: "map_of ts c = Some x \<Longrightarrow> map fst (AList.update c y ts) = map fst ts"
  using map_of_Some_key[of ts c x] by (simp add: update_keys)

lemma complete_children_map_of:
  "complete_children cs ts = Inr ts' \<Longrightarrow>
   map_of ts' v = (if v \<in> set cs then map_option (set_status COMPLETED) (map_of ts v) else map_of ts v)"
proof (induction cs arbitrary: ts)
  case Nil
  then show ?case by simp
next
  case (Cons c cs)
  then show ?case
    by (auto simp: update_conv' set_status_idem split: option.splits)
qed

lemma complete_children_keys:
  "complete_children cs ts = Inr ts' \<Longrightarrow> map fst ts' = map fst ts"
proof (induction cs arbitrary: ts)
  case Nil
  then show ?case by simp
next
  case (Cons c cs)
  then show ?case
    by (auto simp: update_same_keys split: option.splits)
qed

lemma complete_children_total:
  "set cs \<subseteq> fst ` set ts \<Longrightarrow> \<exists>ts'. complete_children cs ts = Inr ts'"
proof (induction cs arbitrary: ts)
  case Nil
  then show ?case by simp
next
  case (Cons c cs)
  then obtain child where c: "map_of ts c = Some child"
    by (cases "map_of ts c") (auto simp: map_of_eq_None_iff)
  have "set cs \<subseteq> fst ` set (AList.update c (set_status COMPLETED child) ts)"
    using Cons.prems update_same_keys[OF c] by (metis set_subset_Cons set_map subset_trans)
  from Cons.IH[OF this] show ?case using c by simp
qed

lemma reopen_idem: "reopen (reopen t) = reopen t"
  by (simp add: reopen_def set_status_def)

lemma reopen_children_map_of:
  "reopen_children cs ts = Inr ts' \<Longrightarrow>
   map_of ts' v = (if v \<in> set cs then map_option reopen (map_of ts v) else map_of ts v)"
proof (induction cs arbitrary: ts)
  case Nil
  then show ?case by simp
next
  case (Cons c cs)
  from Cons.prems obtain child where c: "map_of ts c = Some child"
    by (cases "map_of ts c") auto
  define ts1 where "ts1 = (if status (item child) = COMPLETED
     then AList.update c (set_status NEEDS_ACTION child) ts else ts)"
  have m1: "map_of ts1 = (map_of ts)(c \<mapsto> reopen child)"
    using c by (auto simp: ts1_def reopen_def update_conv')
  have "reopen_children cs ts1 = Inr ts'"
    using Cons.prems c by (simp add: ts1_def)
  from Cons.IH[OF this] show ?case
    using c by (simp add: m1 reopen_idem)
qed

lemma reopen_children_total:
  "set cs \<subseteq> fst ` set ts \<Longrightarrow> \<exists>ts'. reopen_children cs ts = Inr ts'"
proof (induction cs arbitrary: ts)
  case Nil
  then show ?case by simp
next
  case (Cons c cs)
  then obtain child where c: "map_of ts c = Some child"
    by (cases "map_of ts c") (auto simp: map_of_eq_None_iff)
  have "set cs \<subseteq> fst ` set (AList.update c (set_status NEEDS_ACTION child) ts)"
    using Cons.prems update_same_keys[OF c] by (metis set_subset_Cons set_map subset_trans)
  from Cons.IH[OF this] Cons.IH[of ts] Cons.prems show ?case using c by simp
qed

lemma spec_parent_status_code:
  "spec_parent_status ss =
     (if ss = [] then NEEDS_ACTION
      else if list_all (\<lambda>s. s = COMPLETED) ss then COMPLETED
      else if list_ex (\<lambda>s. s = IN_PROGRESS) ss then IN_PROGRESS
      else if list_ex (\<lambda>s. s = COMPLETED) ss then IN_PROGRESS
      else NEEDS_ACTION)"
  by (auto simp: spec_parent_status_def list_all_iff list_ex_iff)

lemma list_ex_map: "list_ex P (map f xs) = list_ex (\<lambda>x. P (f x)) xs"
  by (induction xs) auto

lemma list_all_map: "list_all P (map f xs) = list_all (\<lambda>x. P (f x)) xs"
  by (induction xs) auto

lemma derive_eq_spec:
  "map_of (stored_tasks m) puid = Some p \<Longrightarrow>
   derive_parent_status_from_children m puid =
     spec_parent_status (map status (child_items m (parent_key p)))"
  by (simp add: derive_parent_status_from_children_def spec_parent_status_code Let_def
      list_all_map list_ex_map)

lemma complete_children_status:
  assumes "complete_children cs ts = Inr ts'" "c \<in> set cs" "map_of ts c = Some child"
  shows "map_of ts' c = Some (set_status COMPLETED child)"
  using complete_children_map_of[OF assms(1), of c] assms(2,3) by simp

lemma reopen_children_status:
  assumes "reopen_children cs ts = Inr ts'" "c \<in> set cs" "map_of ts c = Some child"
  shows "map_of ts' c = Some (reopen child)"
  using reopen_children_map_of[OF assms(1), of c] assms(2,3) by simp

lemmas update_defs = async_update_item_def Let_def children_of_def
  derive_parent_status_from_children_def child_items_def map_filter_def set_status_def
  notify_listeners_def status_of_def result_status_def

lemma ex_store_child_started:
  "async_update_item ''uu'' (Some IN_PROGRESS)
     (ex_store IN_PROGRESS NEEDS_ACTION NEEDS_ACTION NEEDS_ACTION 1) =
   Inr (ex_store IN_PROGRESS IN_PROGRESS NEEDS_ACTION NEEDS_ACTION 2)"
  by (simp add: update_defs ex_defs)

lemma update_item_parent_round_trip:
  "async_update_item ''u'' (Some COMPLETED)
     (ex_store IN_PROGRESS NEEDS_ACTION NEEDS_ACTION NEEDS_ACTION 1) =
   Inr (ex_store COMPLETED COMPLETED COMPLETED COMPLETED 2) \<and>
   async_update_item ''u'' (Some NEEDS_ACTION)
     (ex_store COMPLETED COMPLETED COMPLETED COMPLETED 2) =
   Inr (ex_store NEEDS_ACTION NEEDS_ACTION NEEDS_ACTION NEEDS_ACTION 3)"
  by (simp add: update_defs ex_defs)

lemma spec_parent_status_examples:
  "spec_parent_status [COMPLETED, NEEDS_ACTION] = IN_PROGRESS"
  "spec_parent_status [COMPLETED, COMPLETED] = COMPLETED"
  "spec_parent_status [] = NEEDS_ACTION"
  by (simp_all add: spec_parent_status_def)

lemma map_map_filter:
  "map g (List.map_filter f xs) = List.map_filter (\<lambda>x. map_option g (f x)) xs"
  by (induction xs) (auto simp: map_filter_simps split: option.splits)

lemma map_filter_cong_set:
  "(\<And>x. x \<in> set xs \<Longrightarrow> f x = g x) \<Longrightarrow> List.map_filter f xs = List.map_filter g xs"
  by (induction xs) (auto simp: map_filter_simps split: option.splits)


lemma child_description_eq_spec:
  "child_description planned = spec_child_description ''Mental Load: '' planned"
  by (cases "p_description planned"; cases "effort planned"; cases "p_notes planned")
    (simp_all add: child_description_def spec_child_description_def opt_part_def truthy_def
      or_empty_def Let_def)

lemma add_children_uuid_calls:
  "uuid_calls (add_children env k ps pu src dov ts m) = uuid_calls m + length ts"
  by (induction ts arbitrary: m) (simp_all add: Let_def)

lemma add_children_Cons:
  "add_children env k ps pu src dov (p # rest) m =
   add_children env k ps pu src dov rest (child_step env k ps pu src dov p m)"
  by (simp add: Let_def child_step_def)

lemma add_children_other:
  "(\<And>j. j < length ts \<Longrightarrow> v \<noteq> uuid4 env (uuid_calls m + j)) \<Longrightarrow>
   map_of (stored_tasks (add_children env k ps pu src dov ts m)) v = map_of (stored_tasks m) v"
proof (induction ts arbitrary: m)
  case Nil
  then show ?case by simp
next
  case (Cons p rest)
  let ?m1 = "child_step env k ps pu src dov p m"
  have v0: "v \<noteq> uuid4 env (uuid_calls m)" using Cons.prems[of 0] by simp
  have vj: "\<And>j. j < length rest \<Longrightarrow> v \<noteq> uuid4 env (uuid_calls ?m1 + j)"
    using Cons.prems[of "Suc j" for j] by (simp add: child_step_def)
  have "map_of (stored_tasks (add_children env k ps pu src dov rest ?m1)) v =
      map_of (stored_tasks ?m1) v"
    by (rule Cons.IH) (rule vj)
  also have "\<dots> = map_of (stored_tasks m) v"
    using v0 by (simp add: child_step_def update_conv')
  finally show ?case by (simp only: add_children_Cons)
qed

lemma add_children_child:
  assumes "inj (uuid4 env)" "i < length ts"
  shows "map_of (stored_tasks (add_children env k ps pu src dov ts m))
           (uuid4 env (uuid_calls m + i)) =
         Some \<lparr>item = child_item ps pu src dov (uuid4 env (uuid_calls m + i)) (ts ! i),
               parent_key = k, is_parent = False\<rparr>"
  using assms(2)
proof (induction ts arbitrary: m i)
  case Nil
  then show ?case by simp
next
  case (Cons p rest)
  let ?m1 = "child_step env k ps pu src dov p m"
  have u1: "uuid_calls ?m1 = Suc (uuid_calls m)" by (simp add: child_step_def)
  show ?case
  proof (cases i)
    case 0
    have "\<And>j. j < length rest \<Longrightarrow>
        uuid4 env (uuid_calls m) \<noteq> uuid4 env (uuid_calls ?m1 + j)"
      using assms(1) by (auto simp: u1 dest: injD)
    then have "map_of (stored_tasks (add_children env k ps pu src dov rest ?m1))
        (uuid4 env (uuid_calls m)) = map_of (stored_tasks ?m1) (uuid4 env (uuid_calls m))"
      by (rule add_children_other)
    also have "\<dots> = Some \<lparr>item = child_item ps pu src dov (uuid4 env (uuid_calls m)) p,
               parent_key = k, is_parent = False\<rparr>"
      by (simp add: child_step_def update_conv')
    finally show ?thesis
      using 0 by (simp del: add_children.simps add: add_children_Cons)
  next
    case (Suc i')
    then have "i' < length rest" using Cons.prems by simp
    from Cons.IH[OF this, of ?m1] show ?thesis
      using Suc by (simp del: add_children.simps add: add_children_Cons u1)
  qed
qed

lemma replicate_numeral_unfold: "replicate (numeral k) x = x # replicate (pred_numeral k) x"
  by (simp add: numeral_eq_Suc)

lemma ex_replanned_reached:
  "async_process_calendar_event (ex_env cal) ''home'' ''calendar:home:e1''
     (ex_event (Some ''cake'')) (ex_store IN_PROGRESS NEEDS_ACTION NEEDS_ACTION NEEDS_ACTION 1) =
   Inr (True, ex_replanned)"
  by (simp add: model_defs ex_defs ex_replanned_def replicate_numeral_unfold)

lemma process_calendars_append:
  "process_calendars env (pre @ rest) om =
     (case process_calendars env pre om of
        (None, om1) \<Rightarrow> process_calendars env rest om1
      | (Some e, om1) \<Rightarrow> (Some e, om1))"
proof (induction pre arbitrary: om)
  case Nil
  then show ?case by (cases om) simp
next
  case (Cons c pre)
  obtain observed m where om: "om = (observed, m)" by (cases om)
  show ?case
    by (simp add: om Cons.IH split: option.splits sum.splits)
qed

lemma ex_home_processed:
  "process_calendars (ex_env ex_cal) [''home''] ([], empty_manager) =
     (None, [''calendar:home:e1''],
      ex_store IN_PROGRESS NEEDS_ACTION NEEDS_ACTION NEEDS_ACTION 1)"
proof -
  have k: "make_parent_key (ex_env ex_cal) ''home'' (ex_event None) = ''calendar:home:e1''"
    by (simp add: make_parent_key_def ex_event_def truthy_def or_empty_def)
  have g: "async_get_events (ex_env ex_cal) ''home'' = Some [ex_event None]"
    by (simp add: ex_env_def ex_cal_def)
  show ?thesis
    by (simp add: g k ex_store_installed)
qed

section \<open>The cycle on recorded signatures\<close>






















section \<open>Status edits on a child\<close>

text \<open>
  C2. A status edit on a child through \<^verbatim>\<open>async_update_item\<close>, for a child whose parent
  uid names a stored parent task that is not listed among its own children, returns the
  manager in which the edited child has the requested status (NEEDS_ACTION when none is
  given), the parent task has the status that the derivation rule of the specification
  (rules 1 to 5, first match wins) gives for the statuses of the stored children of the
  parent's key, read from the manager before the call with the edit applied, one
  notification more, and nothing else changed.
\<close>

theorem update_item_child_sets_parent_status:
  assumes u: "map_of (stored_tasks m) u = Some stored"
    and np: "\<not> is_parent stored"
    and pu: "x_parent_uid (extra (item stored)) = Some puid"
    and ne: "puid \<noteq> []"
    and par: "map_of (stored_tasks m) puid = Some parent"
    and ip: "is_parent parent"
    and nc: "puid \<notin> set (case map_of (parent_children m) (parent_key parent) of
                            None \<Rightarrow> [] | Some cs \<Rightarrow> cs)"
  shows "async_update_item u st m =
     Inr (m\<lparr>stored_tasks :=
            AList.update puid
              (parent\<lparr>item := (item parent)\<lparr>status :=
                 spec_parent_status
                   (List.map_filter
                      (\<lambda>c. if c = u then Some (case st of None \<Rightarrow> NEEDS_ACTION | Some s \<Rightarrow> s)
                           else map_option (\<lambda>t. status (item t)) (map_of (stored_tasks m) c))
                      (case map_of (parent_children m) (parent_key parent) of
                         None \<Rightarrow> [] | Some cs \<Rightarrow> cs))\<rparr>\<rparr>)
              (AList.update u
                 (stored\<lparr>item := (item stored)\<lparr>status :=
                    (case st of None \<Rightarrow> NEEDS_ACTION | Some s \<Rightarrow> s)\<rparr>\<rparr>)
                 (stored_tasks m)),
          notifications := Suc (notifications m)\<rparr>)"
proof -
  define new_status where "new_status = (case st of None \<Rightarrow> NEEDS_ACTION | Some s \<Rightarrow> s)"
  define ts1 where "ts1 = AList.update u (set_status new_status stored) (stored_tasks m)"
  define m1 where "m1 = m\<lparr>stored_tasks := ts1\<rparr>"
  define cs where "cs = children_of (parent_children m) (parent_key parent)"
  have pne: "puid \<noteq> u" using u par np ip by auto
  have p1: "map_of ts1 puid = Some parent"
    using par pne by (simp add: ts1_def update_conv')
  have res: "async_update_item u st m =
      Inr (notify_listeners (m1\<lparr>stored_tasks :=
        AList.update puid (set_status (derive_parent_status_from_children m1 puid) parent) ts1\<rparr>))"
    using u np pu ne p1
    by (simp add: async_update_item_def Let_def new_status_def ts1_def m1_def)
  have st1: "stored_tasks m1 = ts1" by (simp add: m1_def)
  have d: "derive_parent_status_from_children m1 puid =
      spec_parent_status (map status (child_items m1 (parent_key parent)))"
    using derive_eq_spec[of m1 puid parent] p1 by (simp add: st1)
  have "map status (child_items m1 (parent_key parent)) =
      List.map_filter (\<lambda>c. map_option status (map_option item (map_of ts1 c))) cs"
    by (simp add: child_items_def map_map_filter m1_def cs_def)
  also have "\<dots> = List.map_filter
      (\<lambda>c. if c = u then Some new_status
           else map_option (\<lambda>t. status (item t)) (map_of (stored_tasks m) c)) cs"
    by (rule map_filter_cong_set)
      (simp add: ts1_def update_conv' set_status_def option.map_comp comp_def)
  finally have l: "map status (child_items m1 (parent_key parent)) =
      List.map_filter
      (\<lambda>c. if c = u then Some new_status
           else map_option (\<lambda>t. status (item t)) (map_of (stored_tasks m) c)) cs" .
  show ?thesis
    unfolding res d l new_status_def
    by (simp add: notify_listeners_def m1_def ts1_def set_status_def new_status_def cs_def
        children_of_def)
qed

theorem update_item_child_sets_parent_status_witness:
  "async_update_item ''uu'' (Some COMPLETED)
     (ex_store IN_PROGRESS NEEDS_ACTION COMPLETED COMPLETED 1) =
   Inr (ex_store COMPLETED COMPLETED COMPLETED COMPLETED 2)"
proof -
  let ?m = "ex_store IN_PROGRESS NEEDS_ACTION COMPLETED COMPLETED 1"
  let ?c = "ex_child ''u'' ''uu'' ''a'' NEEDS_ACTION"
  let ?p = "ex_parent ''u'' IN_PROGRESS"
  have h1: "map_of (stored_tasks ?m) ''uu'' = Some ?c" by (simp add: ex_store_def)
  have h2: "\<not> is_parent ?c" by (simp add: ex_child_def)
  have h3: "x_parent_uid (extra (item ?c)) = Some ''u''" by (simp add: ex_child_def)
  have h4: "''u'' \<noteq> []" by simp
  have h5: "map_of (stored_tasks ?m) ''u'' = Some ?p" by (simp add: ex_store_def)
  have h6: "is_parent ?p" by (simp add: ex_parent_def)
  have h7: "''u'' \<notin> set (case map_of (parent_children ?m) (parent_key ?p) of
                            None \<Rightarrow> [] | Some cs \<Rightarrow> cs)"
    by (simp add: ex_store_def ex_parent_def)
  show ?thesis
    unfolding update_item_child_sets_parent_status[OF h1 h2 h3 h4 h5 h6 h7, of "Some COMPLETED"]
    by (simp add: ex_defs spec_parent_status_def map_filter_def)
qed

text \<open>
  C10. A status edit on a child through \<^verbatim>\<open>async_update_item\<close> returns; it changes no
  index, no key of the task dict and, of any stored task, nothing but the status; the
  tasks other than the edited child and the task its parent uid names are unchanged, so
  no sibling and no child of another parent changes status.
\<close>

theorem update_item_child_frame:
  assumes u: "map_of (stored_tasks m) u = Some stored"
    and np: "\<not> is_parent stored"
  shows "\<exists>m'. async_update_item u st m = Inr m' \<and>
           map fst (stored_tasks m') = map fst (stored_tasks m) \<and>
           parent_children m' = parent_children m \<and>
           parent_meta m' = parent_meta m \<and>
           event_signatures m' = event_signatures m \<and>
           (\<forall>v t. map_of (stored_tasks m) v = Some t \<longrightarrow>
              (\<exists>t'. map_of (stored_tasks m') v = Some t' \<and>
                    t' = set_status (status (item t')) t \<and>
                    (v \<noteq> u \<and> x_parent_uid (extra (item stored)) \<noteq> Some v \<longrightarrow> t' = t)))"
proof -
  define new_status where "new_status = (case st of None \<Rightarrow> NEEDS_ACTION | Some s \<Rightarrow> s)"
  define ts1 where "ts1 = AList.update u (set_status new_status stored) (stored_tasks m)"
  define m1 where "m1 = m\<lparr>stored_tasks := ts1\<rparr>"
  have k1: "map fst ts1 = map fst (stored_tasks m)"
    using u by (simp add: ts1_def update_same_keys)
  have f1: "\<And>v t. map_of (stored_tasks m) v = Some t \<Longrightarrow>
      \<exists>t'. map_of ts1 v = Some t' \<and> t' = set_status (status (item t')) t \<and> (v \<noteq> u \<longrightarrow> t' = t)"
    using u by (auto simp: ts1_def update_conv' set_status_def)
  have unf: "async_update_item u st m =
      (case x_parent_uid (extra (item stored)) of
         None \<Rightarrow> Inr (notify_listeners m1)
       | Some puid \<Rightarrow>
           (if puid = [] then Inr (notify_listeners m1)
            else (case map_of ts1 puid of
                    None \<Rightarrow> Inr (notify_listeners m1)
                  | Some parent \<Rightarrow>
                      Inr (notify_listeners
                        (m1\<lparr>stored_tasks :=
                           AList.update puid
                             (set_status (derive_parent_status_from_children m1 puid) parent)
                             ts1\<rparr>)))))"
    using u np
    by (simp add: async_update_item_def Let_def new_status_def ts1_def m1_def
        split: option.split)
  consider (plain) "async_update_item u st m = Inr (notify_listeners m1)"
    | (derived) puid p1 s where "x_parent_uid (extra (item stored)) = Some puid"
        "map_of ts1 puid = Some p1"
        "async_update_item u st m =
           Inr (notify_listeners (m1\<lparr>stored_tasks := AList.update puid (set_status s p1) ts1\<rparr>))"
  proof (cases "x_parent_uid (extra (item stored))")
    case None
    then show ?thesis using plain unf by simp
  next
    case (Some puid)
    show ?thesis
    proof (cases "puid = [] \<or> map_of ts1 puid = None")
      case True
      then show ?thesis using plain unf Some by auto
    next
      case False
      then obtain p1 where p1: "map_of ts1 puid = Some p1" by auto
      show ?thesis
        using derived[OF Some p1] unf Some False p1 by simp
    qed
  qed
  then show ?thesis
  proof cases
    case plain
    have "\<exists>t'. map_of ts1 v = Some t' \<and> t' = set_status (status (item t')) t \<and>
          (v \<noteq> u \<and> x_parent_uid (extra (item stored)) \<noteq> Some v \<longrightarrow> t' = t)"
      if "map_of (stored_tasks m) v = Some t" for v t
      using f1[OF that] by blast
    then show ?thesis
      using plain k1 by (simp add: notify_listeners_def m1_def)
  next
    case derived
    have k2: "map fst (AList.update puid (set_status s p1) ts1) = map fst (stored_tasks m)"
      using derived(2) k1 by (simp add: update_same_keys)
    have f2: "\<exists>t'. map_of (AList.update puid (set_status s p1) ts1) v = Some t' \<and>
          t' = set_status (status (item t')) t \<and>
          (v \<noteq> u \<and> x_parent_uid (extra (item stored)) \<noteq> Some v \<longrightarrow> t' = t)"
      if "map_of (stored_tasks m) v = Some t" for v t
    proof -
      from f1[OF that] obtain t1 where t1: "map_of ts1 v = Some t1"
        "t1 = set_status (status (item t1)) t" "v \<noteq> u \<longrightarrow> t1 = t" by blast
      show ?thesis
      proof (cases "v = puid")
        case True
        then have "p1 = t1" using derived(2) t1(1) by simp
        then have "set_status s p1 = set_status (status (item (set_status s p1))) t"
          using t1(2) by (metis set_status_idem set_status_def StoredTask.select_convs(1)
              StoredTask.surjective StoredTask.update_convs(1) TodoItem.select_convs(4)
              TodoItem.surjective TodoItem.update_convs(4))
        then show ?thesis using True derived(1) by (simp add: update_conv')
      next
        case False
        then show ?thesis using t1 derived(1) by (simp add: update_conv')
      qed
    qed
    show ?thesis
      using derived(3) k2 f2 by (simp add: notify_listeners_def m1_def)
  qed
qed


theorem update_item_child_frame_witness:
  "map_of (stored_tasks (ex_store IN_PROGRESS NEEDS_ACTION NEEDS_ACTION NEEDS_ACTION 1)) ''uu''
     = Some (ex_child ''u'' ''uu'' ''a'' NEEDS_ACTION) \<and>
   \<not> is_parent (ex_child ''u'' ''uu'' ''a'' NEEDS_ACTION) \<and>
   (\<exists>m'. async_update_item ''uu'' (Some COMPLETED)
            (ex_store IN_PROGRESS NEEDS_ACTION NEEDS_ACTION NEEDS_ACTION 1) = Inr m' \<and>
         map_of (stored_tasks m') ''uuu'' = Some (ex_child ''u'' ''uuu'' ''b'' NEEDS_ACTION) \<and>
         map_of (stored_tasks m') ''uuuu'' = Some (ex_child ''u'' ''uuuu'' ''c'' NEEDS_ACTION))"
proof -
  let ?m = "ex_store IN_PROGRESS NEEDS_ACTION NEEDS_ACTION NEEDS_ACTION 1"
  let ?c = "ex_child ''u'' ''uu'' ''a'' NEEDS_ACTION"
  have h1: "map_of (stored_tasks ?m) ''uu'' = Some ?c" by (simp add: ex_store_def)
  have h2: "\<not> is_parent ?c" by (simp add: ex_child_def)
  have s2: "map_of (stored_tasks ?m) ''uuu'' = Some (ex_child ''u'' ''uuu'' ''b'' NEEDS_ACTION)"
    by (simp add: ex_store_def)
  have s3: "map_of (stored_tasks ?m) ''uuuu'' = Some (ex_child ''u'' ''uuuu'' ''c'' NEEDS_ACTION)"
    by (simp add: ex_store_def)
  have p: "x_parent_uid (extra (item ?c)) = Some ''u''" by (simp add: ex_child_def)
  from update_item_child_frame[OF h1 h2, of "Some COMPLETED"] obtain m' where
    r: "async_update_item ''uu'' (Some COMPLETED) ?m = Inr m'"
    and f: "\<And>v t. map_of (stored_tasks ?m) v = Some t \<Longrightarrow>
        v \<noteq> ''uu'' \<Longrightarrow> x_parent_uid (extra (item ?c)) \<noteq> Some v \<Longrightarrow>
        map_of (stored_tasks m') v = Some t"
    by blast
  have "map_of (stored_tasks m') ''uuu'' = Some (ex_child ''u'' ''uuu'' ''b'' NEEDS_ACTION)"
    using f[OF s2] p by simp
  moreover have "map_of (stored_tasks m') ''uuuu'' = Some (ex_child ''u'' ''uuuu'' ''c'' NEEDS_ACTION)"
    using f[OF s3] p by simp
  ultimately show ?thesis using h1 h2 r by blast
qed

section \<open>Status edits on a parent\<close>

text \<open>
  C3, as amended. When every child uid of the edited parent is stored,
  \<^verbatim>\<open>async_update_item\<close> on the parent returns and each child (other than the parent
  itself) ends as follows: set to COMPLETED when the new status is COMPLETED, whatever
  its status was; unchanged when the new status is IN_PROGRESS; and when the new status
  is NEEDS_ACTION (or absent), set to NEEDS_ACTION if it was COMPLETED and unchanged
  otherwise. An IN_PROGRESS child is left alone by the NEEDS_ACTION transition only.
\<close>

theorem update_item_parent_propagates:
  assumes u: "map_of (stored_tasks m) u = Some stored"
    and ip: "is_parent stored"
    and sub: "set (children_of (parent_children m) (parent_key stored))
                \<subseteq> fst ` set (stored_tasks m)"
    and c: "c \<in> set (children_of (parent_children m) (parent_key stored))"
    and cu: "c \<noteq> u"
    and ch: "map_of (stored_tasks m) c = Some child"
  shows "\<exists>m'. async_update_item u st m = Inr m' \<and>
           map_of (stored_tasks m') c =
             Some (case st of
                     Some COMPLETED \<Rightarrow> set_status COMPLETED child
                   | Some IN_PROGRESS \<Rightarrow> child
                   | _ \<Rightarrow> if status (item child) = COMPLETED
                          then set_status NEEDS_ACTION child else child)"
proof -
  define new_status where "new_status = (case st of None \<Rightarrow> NEEDS_ACTION | Some s \<Rightarrow> s)"
  define ts1 where "ts1 = AList.update u (set_status new_status stored) (stored_tasks m)"
  define cs where "cs = children_of (parent_children m) (parent_key stored)"
  have k1: "map fst ts1 = map fst (stored_tasks m)"
    using u by (simp add: ts1_def update_same_keys)
  have sub1: "set cs \<subseteq> fst ` set ts1"
    using sub k1 by (metis cs_def set_map)
  have c1: "map_of ts1 c = Some child"
    using ch cu by (simp add: ts1_def update_conv')
  have cin: "c \<in> set cs" using c by (simp add: cs_def)
  show ?thesis
  proof (cases new_status)
    case COMPLETED
    from complete_children_total[OF sub1] obtain ts2 where t2: "complete_children cs ts1 = Inr ts2"
      by blast
    have "async_update_item u st m = Inr (notify_listeners (m\<lparr>stored_tasks := ts2\<rparr>))"
      using u ip COMPLETED t2
      by (simp add: async_update_item_def Let_def new_status_def ts1_def cs_def)
    moreover have "st = Some COMPLETED"
      using COMPLETED by (auto simp: new_status_def split: option.splits)
    ultimately show ?thesis
      using complete_children_status[OF t2 cin c1] by (simp add: notify_listeners_def)
  next
    case NEEDS_ACTION
    from reopen_children_total[OF sub1] obtain ts2 where t2: "reopen_children cs ts1 = Inr ts2"
      by blast
    have "async_update_item u st m = Inr (notify_listeners (m\<lparr>stored_tasks := ts2\<rparr>))"
      using u ip NEEDS_ACTION t2
      by (simp add: async_update_item_def Let_def new_status_def ts1_def cs_def)
    moreover have "st = Some NEEDS_ACTION \<or> st = None"
      using NEEDS_ACTION by (auto simp: new_status_def split: option.splits)
    ultimately show ?thesis
      using reopen_children_status[OF t2 cin c1] by (auto simp: notify_listeners_def reopen_def)
  next
    case IN_PROGRESS
    have "async_update_item u st m = Inr (notify_listeners (m\<lparr>stored_tasks := ts1\<rparr>))"
      using u ip IN_PROGRESS
      by (simp add: async_update_item_def Let_def new_status_def ts1_def)
    moreover have "st = Some IN_PROGRESS"
      using IN_PROGRESS by (auto simp: new_status_def split: option.splits)
    ultimately show ?thesis
      using c1 by (simp add: notify_listeners_def)
  qed
qed

theorem update_item_parent_propagates_witness:
  "map_of (stored_tasks (ex_store IN_PROGRESS NEEDS_ACTION NEEDS_ACTION NEEDS_ACTION 1)) ''u''
     = Some (ex_parent ''u'' IN_PROGRESS) \<and>
   (\<exists>m'. async_update_item ''u'' (Some COMPLETED)
            (ex_store IN_PROGRESS NEEDS_ACTION NEEDS_ACTION NEEDS_ACTION 1) = Inr m' \<and>
         map_of (stored_tasks m') ''uu'' = Some (ex_child ''u'' ''uu'' ''a'' COMPLETED))"
proof -
  let ?m = "ex_store IN_PROGRESS NEEDS_ACTION NEEDS_ACTION NEEDS_ACTION 1"
  let ?p = "ex_parent ''u'' IN_PROGRESS"
  let ?c = "ex_child ''u'' ''uu'' ''a'' NEEDS_ACTION"
  have h1: "map_of (stored_tasks ?m) ''u'' = Some ?p" by (simp add: ex_store_def)
  have h2: "is_parent ?p" by (simp add: ex_parent_def)
  have h3: "set (children_of (parent_children ?m) (parent_key ?p)) \<subseteq> fst ` set (stored_tasks ?m)"
    by (simp add: ex_store_def ex_parent_def children_of_def)
  have h4: "''uu'' \<in> set (children_of (parent_children ?m) (parent_key ?p))"
    by (simp add: ex_store_def ex_parent_def children_of_def)
  have h5: "''uu'' \<noteq> ''u''" by simp
  have h6: "map_of (stored_tasks ?m) ''uu'' = Some ?c" by (simp add: ex_store_def)
  from update_item_parent_propagates[OF h1 h2 h3 h4 h5 h6, of "Some COMPLETED"] h1
  show ?thesis by (simp add: set_status_def ex_child_def)
qed

text \<open>
  C3 as stated fails: completing the parent completes a child that was IN_PROGRESS.
\<close>

theorem update_item_parent_completed_changes_in_progress_child:
  "status_of (ex_store IN_PROGRESS IN_PROGRESS NEEDS_ACTION NEEDS_ACTION 2) ''uu''
     = Some IN_PROGRESS \<and>
   result_status
     (async_update_item ''u'' (Some COMPLETED)
        (ex_store IN_PROGRESS IN_PROGRESS NEEDS_ACTION NEEDS_ACTION 2)) ''uu''
     = Some COMPLETED"
  by (simp add: update_defs ex_defs)

section \<open>Listing order\<close>




section \<open>Signatures\<close>




section \<open>The children a plan installs\<close>

text \<open>
  C6, as amended. When the key has a meta entry and uuid4 never repeats,
  \<^verbatim>\<open>_replace_parent_tasks\<close> returns, stores the new parent task under the next uuid, and
  stores for the planned task at each position a child under the uuid drawn for it, with
  summary parent summary, colon, space, planned title; with the description made of the
  present and non-empty values among the planned description, the line
  \<open>Mental Load: \<close> followed by the effort, and the notes, one per line (None when there is
  none); with status NEEDS_ACTION; with the planned due, or else the due override; and with
  the parent task's uid in its attributes.
\<close>

theorem replace_parent_tasks_child:
  assumes meta: "map_of (parent_meta m) k = Some mt"
    and inj: "inj (uuid4 env)"
    and i: "i < length (tasks plan)"
  shows "\<exists>m' p. replace_parent_tasks env k plan dov m = Inr m' \<and>
     map_of (stored_tasks m') (uuid4 env (uuid_calls m)) = Some p \<and>
     is_parent p \<and> parent_key p = k \<and> uid (item p) = uuid4 env (uuid_calls m) \<and>
     summary (item p) =
       (case meta_summary mt of
          None \<Rightarrow> ''Mental Load Aufgabe''
        | Some s \<Rightarrow> if s = [] then ''Mental Load Aufgabe'' else s) \<and>
     map_of (stored_tasks m') (uuid4 env (uuid_calls m + 1 + i)) =
       Some \<lparr>item =
               \<lparr>summary = summary (item p) @ '': '' @ title (tasks plan ! i),
                uid = uuid4 env (uuid_calls m + 1 + i),
                description = spec_child_description ''Mental Load: '' (tasks plan ! i),
                status = NEEDS_ACTION,
                due = (case p_due (tasks plan ! i) of None \<Rightarrow> dov | Some d \<Rightarrow> Some d),
                extra = \<lparr>x_source = meta_source mt,
                         x_parent_uid = Some (uid (item p)),
                         x_mental_load = effort (tasks plan ! i)\<rparr>\<rparr>,
             parent_key = k, is_parent = False\<rparr>"
proof -
  define pu where "pu = uuid4 env (uuid_calls m)"
  define psum where "psum = (if truthy (meta_summary mt) then or_empty (meta_summary mt)
     else ''Mental Load Aufgabe'')"
  define pitem where "pitem =
     \<lparr>summary = psum, uid = pu, description = parent_notes plan,
      status = derive_parent_status (tasks plan), due = dov,
      extra = \<lparr>x_source = meta_source mt, x_parent_uid = None,
               x_mental_load = mental_load plan\<rparr>\<rparr>"
  define m0 where "m0 =
     m\<lparr>uuid_calls := Suc (uuid_calls m),
       stored_tasks :=
         AList.update pu \<lparr>item = pitem, parent_key = k, is_parent = True\<rparr>
           (pop_all (children_of (parent_children m) k) (stored_tasks m)),
       parent_children := AList.update k [] (AList.delete k (parent_children m)),
       parent_meta := AList.update k (mt\<lparr>meta_parent_uid := Some pu\<rparr>) (parent_meta m)\<rparr>"
  define m' where "m' = notify_listeners
     (add_children env k psum pu (meta_source mt) dov (tasks plan) m0)"
  have res: "replace_parent_tasks env k plan dov m = Inr m'"
    using meta
    by (simp add: replace_parent_tasks_def Let_def m'_def m0_def pitem_def psum_def pu_def)
  have u0: "uuid_calls m0 = Suc (uuid_calls m)" by (simp add: m0_def)
  have "\<And>j. j < length (tasks plan) \<Longrightarrow> pu \<noteq> uuid4 env (uuid_calls m0 + j)"
    using inj by (auto simp: u0 pu_def dest: injD)
  then have "map_of (stored_tasks (add_children env k psum pu (meta_source mt) dov (tasks plan) m0)) pu
      = map_of (stored_tasks m0) pu"
    by (rule add_children_other)
  then have par: "map_of (stored_tasks m') pu = Some \<lparr>item = pitem, parent_key = k, is_parent = True\<rparr>"
    by (simp add: m'_def notify_listeners_def) (simp add: m0_def update_conv')
  have "map_of (stored_tasks (add_children env k psum pu (meta_source mt) dov (tasks plan) m0))
      (uuid4 env (uuid_calls m0 + i)) =
      Some \<lparr>item = child_item psum pu (meta_source mt) dov (uuid4 env (uuid_calls m0 + i))
               (tasks plan ! i), parent_key = k, is_parent = False\<rparr>"
    using inj i by (rule add_children_child)
  then have ch: "map_of (stored_tasks m') (uuid4 env (uuid_calls m + 1 + i)) =
      Some \<lparr>item = child_item psum pu (meta_source mt) dov (uuid4 env (uuid_calls m + 1 + i))
               (tasks plan ! i), parent_key = k, is_parent = False\<rparr>"
    by (simp add: m'_def notify_listeners_def u0)
  show ?thesis
    using res par ch
    by (simp add: pu_def[symmetric] child_item_def child_description_eq_spec pitem_def
        psum_def truthy_def or_empty_def split: option.splits)
qed

theorem replace_parent_tasks_child_witness:
  "map_of (parent_meta ex_planned_store) ''calendar:home:e1'' = Some (ex_meta0) \<and>
   inj (uuid4 (ex_env (\<lambda>c. None))) \<and> Suc 0 < length (tasks ex_plan) \<and>
   (\<exists>m'. replace_parent_tasks (ex_env (\<lambda>c. None)) ''calendar:home:e1'' ex_plan (Some 1)
            ex_planned_store = Inr m' \<and>
         map_of (stored_tasks m') ''uuu'' = Some (ex_child ''u'' ''uuu'' ''b'' NEEDS_ACTION))"
proof -
  let ?env = "ex_env (\<lambda>c. None)"
  have h1: "map_of (parent_meta ex_planned_store) ''calendar:home:e1'' = Some ex_meta0"
    by (simp add: ex_planned_store_def)
  have h2: "inj (uuid4 ?env)" by (simp add: inj_def ex_env_def)
  have h3: "Suc 0 < length (tasks ex_plan)" by (simp add: ex_plan_def)
  have u: "uuid4 ?env (uuid_calls ex_planned_store) = ''u''"
    "uuid4 ?env (uuid_calls ex_planned_store + 1 + Suc 0) = ''uuu''"
    by (simp_all add: ex_env_def ex_planned_store_def empty_manager_def numeral_2_eq_2)
  have "\<exists>m'. replace_parent_tasks ?env ''calendar:home:e1'' ex_plan (Some 1)
            ex_planned_store = Inr m' \<and>
         map_of (stored_tasks m') ''uuu'' = Some (ex_child ''u'' ''uuu'' ''b'' NEEDS_ACTION)"
    using replace_parent_tasks_child[OF h1 h2 h3, of "Some 1"] unfolding u
    by (auto simp: ex_plan_def ex_planned_def ex_child_def ex_meta0_def
        spec_child_description_def)
  then show ?thesis using h1 h2 h3 by blast
qed

text \<open>
  C6 as stated fails on the label of the effort line: the source writes
  \<open>Mental Load: high\<close>, not \<open>effort: high\<close>.
\<close>

theorem child_description_label:
  "child_description ex_effort_task = Some ''Mental Load: high'' \<and>
   child_description ex_effort_task \<noteq> Some ''effort: high''"
  by (simp add: child_description_def ex_effort_task_def opt_part_def truthy_def or_empty_def)

section \<open>Replacing a plan\<close>

text \<open>
  C1 does not hold of the source. \<^verbatim>\<open>_replace_parent_tasks\<close> pops the child set of the
  key and removes those tasks, and never removes the task of the previous parent, whose
  uid is only in the meta entry (which \<^verbatim>\<open>async_process_calendar_event\<close> has replaced by
  then); \<^verbatim>\<open>_remove_parent\<close> does remove it. Here the event of the example store changes
  its description and is planned again: before, the key has the one parent \<open>u\<close>; after,
  it has the parents \<open>u\<close> and \<open>uuuuu\<close>, and the three children name \<open>uuuuu\<close>.
\<close>

theorem replace_parent_tasks_keeps_previous_parent:
  "parents_for (ex_store IN_PROGRESS NEEDS_ACTION NEEDS_ACTION NEEDS_ACTION 1) ''calendar:home:e1''
     = [''u''] \<and>
   async_process_calendar_event (ex_env (\<lambda>c. None)) ''home'' ''calendar:home:e1''
     (ex_event (Some ''cake'')) (ex_store IN_PROGRESS NEEDS_ACTION NEEDS_ACTION NEEDS_ACTION 1) =
   Inr (True, ex_replanned) \<and>
   parents_for ex_replanned ''calendar:home:e1'' = [''u'', ''uuuuu''] \<and>
   children_of (parent_children ex_replanned) ''calendar:home:e1'' =
     [''uuuuuuuu'', ''uuuuuuu'', ''uuuuuu'']"
proof (intro conjI)
  show "async_process_calendar_event (ex_env (\<lambda>c. None)) ''home'' ''calendar:home:e1''
     (ex_event (Some ''cake'')) (ex_store IN_PROGRESS NEEDS_ACTION NEEDS_ACTION NEEDS_ACTION 1) =
   Inr (True, ex_replanned)"
    by (rule ex_replanned_reached)
qed (simp_all add: parents_for_def ex_replanned_def ex_store_def ex_parent_def ex_child_def
      children_of_def)

section \<open>Pruning\<close>

text \<open>
  C8 does not hold of the source. On the manager of the previous section, the prune step
  with no observed key removes the children and the second parent and both index entries
  of the calendar key, and leaves the first parent \<open>u\<close>, a task of that key, in the task
  dict; it also leaves the signature recorded for the key.
\<close>

theorem prune_leaves_previous_parent_and_signature:
  "remove_missing_calendar_events [] ex_replanned =
     (1, \<lparr>stored_tasks = [(''u'', ex_parent ''u'' IN_PROGRESS)],
          parent_children = [], parent_meta = [],
          event_signatures = [(''calendar:home:e1'', ''Party|cake|i|'')],
          uuid_calls = 8, planner_calls = 2, notifications = 3\<rparr>)"
  by (simp add: remove_missing_calendar_events_def remove_parent_def startswith_def
      ex_replanned_def ex_meta_def children_of_def pop_all_def truthy_def or_empty_def
      notify_listeners_def)

text \<open>So the same event, observed again, is taken as unchanged and not planned.\<close>

lemma pruned_event_is_not_planned_again:
  "async_process_calendar_event (ex_env cal) ''home'' ''calendar:home:e1''
     (ex_event (Some ''cake''))
     \<lparr>stored_tasks = [(''u'', ex_parent ''u'' IN_PROGRESS)],
      parent_children = [], parent_meta = [],
      event_signatures = [(''calendar:home:e1'', ''Party|cake|i|'')],
      uuid_calls = 8, planner_calls = 2, notifications = 3\<rparr> =
   Inr (False,
     \<lparr>stored_tasks = [(''u'', ex_parent ''u'' IN_PROGRESS)],
      parent_children = [], parent_meta = [],
      event_signatures = [(''calendar:home:e1'', ''Party|cake|i|'')],
      uuid_calls = 8, planner_calls = 2, notifications = 3\<rparr>)"
  by (simp add: async_process_calendar_event_def event_signature_def or_empty_def
      iso_or_empty_def ex_env_def ex_event_def)

section \<open>A calendar that cannot be read\<close>

text \<open>
  C5, as amended. When the calendars before \<open>c\<close> in the list are read and processed
  without error and reading \<open>c\<close> raises, the cycle ends with UpdateFailed for \<open>c\<close> and the
  manager is the one the loop had reached after the calendars before \<open>c\<close>: the calendars
  after \<open>c\<close> are not processed, and the prune step does not run.
\<close>

theorem async_update_data_stops_at_failed_calendar:
  assumes "process_calendars env pre ([], m) = (None, obs, m1)"
    and "async_get_events env c = None"
  shows "async_update_data env (pre @ c # post) m =
           (Some (UpdateFailed (''Failed to read calendar '' @ c)), m1)"
  using assms by (simp add: async_update_data_def process_calendars_append)

theorem async_update_data_stops_at_failed_calendar_witness:
  "async_update_data (ex_env ex_cal) [''home'', ''bad'', ''work''] empty_manager =
     (Some (UpdateFailed ''Failed to read calendar bad''),
      ex_store IN_PROGRESS NEEDS_ACTION NEEDS_ACTION NEEDS_ACTION 1)"
proof -
  have g: "async_get_events (ex_env ex_cal) ''bad'' = None"
    by (simp add: ex_env_def ex_cal_def)
  from async_update_data_stops_at_failed_calendar[OF ex_home_processed g, of "[''work'']"]
  show ?thesis by simp
qed

text \<open>
  C5 as stated fails: with the unreadable calendar first, the event of the calendar after
  it is not processed in that cycle; alone, that calendar gives the example store.
\<close>

theorem async_update_data_skips_calendars_after_failure:
  "async_update_data (ex_env ex_cal) [''bad'', ''home''] empty_manager =
     (Some (UpdateFailed ''Failed to read calendar bad''), empty_manager) \<and>
   async_update_data (ex_env ex_cal) [''home''] empty_manager =
     (None, ex_store IN_PROGRESS NEEDS_ACTION NEEDS_ACTION NEEDS_ACTION 1)"
proof (intro conjI)
  show "async_update_data (ex_env ex_cal) [''bad'', ''home''] empty_manager =
     (Some (UpdateFailed ''Failed to read calendar bad''), empty_manager)"
    by (simp add: async_update_data_def ex_env_def ex_cal_def)
  show "async_update_data (ex_env ex_cal) [''home''] empty_manager =
     (None, ex_store IN_PROGRESS NEEDS_ACTION NEEDS_ACTION NEEDS_ACTION 1)"
    unfolding async_update_data_def ex_home_processed
    by (simp add: remove_missing_calendar_events_def ex_store_def)
qed

section \<open>A second cycle over the same events\<close>




end
